theory Spec2Isabelle
  imports Main "HOL-Library.AList" "HOL-Library.Multiset"
begin

section \<open>Strings of code points\<close>

text \<open>
  A Python \<open>str\<close> is a sequence of Unicode code points, so the model uses lists of
  natural numbers. \<open>U\<close> turns an ASCII literal of the theory into such a list.
\<close>

type_synonym ustr = "nat list"

definition U :: "string \<Rightarrow> ustr" where
  "U s = map of_char s"

text \<open>
  The white space of \<open>str.strip\<close>, \<open>str.isspace\<close> and of \<open>\s\<close> in a str pattern
  (CPython uses one table for the three).
\<close>

definition is_space :: "nat \<Rightarrow> bool" where
  "is_space c \<longleftrightarrow>
     (9 \<le> c \<and> c \<le> 13) \<or> (28 \<le> c \<and> c \<le> 32) \<or> c = 133 \<or> c = 160 \<or> c = 5760 \<or>
     (8192 \<le> c \<and> c \<le> 8202) \<or> c = 8232 \<or> c = 8233 \<or> c = 8239 \<or> c = 8287 \<or> c = 12288"

definition lstrip :: "ustr \<Rightarrow> ustr" where
  "lstrip s = dropWhile is_space s"

definition rstrip :: "ustr \<Rightarrow> ustr" where
  "rstrip s = rev (dropWhile is_space (rev s))"

definition strip :: "ustr \<Rightarrow> ustr" where
  "strip s = rstrip (lstrip s)"

definition startswith :: "ustr \<Rightarrow> ustr \<Rightarrow> bool" where
  "startswith s p \<longleftrightarrow> take (length p) s = p"

definition endswith :: "ustr \<Rightarrow> ustr \<Rightarrow> bool" where
  "endswith s p \<longleftrightarrow> length p \<le> length s \<and> drop (length s - length p) s = p"

text \<open>\<open>s.replace(a, "")\<close> and \<open>s.replace(a, b)\<close> for single code points.\<close>

definition remove_cp :: "nat \<Rightarrow> ustr \<Rightarrow> ustr" where
  "remove_cp a s = filter (\<lambda>c. c \<noteq> a) s"

definition replace_cp :: "nat \<Rightarrow> nat \<Rightarrow> ustr \<Rightarrow> ustr" where
  "replace_cp a b s = map (\<lambda>c. if c = a then b else c) s"

text \<open>
  \<open>s.count(sub)\<close>: the number of non-overlapping occurrences, found from the left.
  For the empty needle Python answers \<open>len(s) + 1\<close>.
\<close>

fun str_count :: "ustr \<Rightarrow> ustr \<Rightarrow> nat" where
  "str_count [] sub = (if sub = [] then 1 else 0)"
| "str_count (c # cs) sub =
     (if sub = [] then Suc (str_count cs sub)
      else if startswith (c # cs) sub then Suc (str_count (drop (length sub - 1) cs) sub)
      else str_count cs sub)"

text \<open>\<open>sep.join(parts)\<close>.\<close>

fun join :: "ustr \<Rightarrow> ustr list \<Rightarrow> ustr" where
  "join sep [] = []"
| "join sep [p] = p"
| "join sep (p # q # ps) = p @ sep @ join sep (q # ps)"

text \<open>\<open>s.split(sep)\<close> for a separator of one code point: never an empty list.\<close>

fun split_on :: "nat \<Rightarrow> ustr \<Rightarrow> ustr list" where
  "split_on sep [] = [[]]"
| "split_on sep (c # cs) =
     (if c = sep then [] # split_on sep cs
      else (case split_on sep cs of [] \<Rightarrow> [[c]] | p # ps \<Rightarrow> (c # p) # ps))"

text \<open>\<open>s.split(sep, 1)\<close> on a string that contains the separator.\<close>

definition split_first :: "nat \<Rightarrow> ustr \<Rightarrow> ustr \<times> ustr" where
  "split_first sep s = (takeWhile (\<lambda>c. c \<noteq> sep) s, drop 1 (dropWhile (\<lambda>c. c \<noteq> sep) s))"

text \<open>
  \<open>s.splitlines()\<close>: the line boundaries of Python, with \<open>\r\n\<close> as one boundary and
  no empty last line.
\<close>

definition is_linebreak :: "nat \<Rightarrow> bool" where
  "is_linebreak c \<longleftrightarrow>
     (10 \<le> c \<and> c \<le> 13) \<or> (28 \<le> c \<and> c \<le> 30) \<or> c = 133 \<or> c = 8232 \<or> c = 8233"

fun splitlines_from :: "ustr \<Rightarrow> ustr \<Rightarrow> ustr list" where
  "splitlines_from cur [] = (if cur = [] then [] else [cur])"
| "splitlines_from cur (c # cs) =
     (if is_linebreak c then
        (case cs of
           [] \<Rightarrow> [cur]
         | d # ds \<Rightarrow>
             if c = 13 \<and> d = 10 then cur # splitlines_from [] ds
             else cur # splitlines_from [] (d # ds))
      else splitlines_from (cur @ [c]) cs)"

definition splitlines :: "ustr \<Rightarrow> ustr list" where
  "splitlines s = splitlines_from [] s"

text \<open>\<open>str(n)\<close> for an integer.\<close>

function str_nat :: "nat \<Rightarrow> ustr" where
  "str_nat n = (if n < 10 then [48 + n] else str_nat (n div 10) @ [48 + n mod 10])"
  by pat_completeness auto
termination
  by (relation "measure id") auto

declare str_nat.simps [simp del]

definition str_int :: "int \<Rightarrow> ustr" where
  "str_int i = (if i < 0 then 45 # str_nat (nat (- i)) else str_nat (nat i))"

section \<open>The Python library the classifier calls\<close>

text \<open>
  \<open>unicodedata.normalize\<close>, \<open>unicodedata.combining\<close>, \<open>str.casefold\<close> and \<open>re.findall\<close>
  are not code of the repository. Every function of the classifier that reaches them
  takes them as a parameter, and the theorems hold for any behaviour of the library
  unless they say otherwise. \<open>re_findall L pattern text ignore_case\<close> stands for
  \<open>re.findall(pattern, text, flags)\<close> with \<open>re.MULTILINE\<close>, and with \<open>re.IGNORECASE\<close>
  when \<open>ignore_case\<close> holds: the list of matches, or the exception raised.
\<close>

datatype py_exn = Re_error | OverflowError | RecursionError | SystemExit

record pylib =
  nfkc :: "ustr \<Rightarrow> ustr"
  nfkd :: "ustr \<Rightarrow> ustr"
  combining :: "nat \<Rightarrow> nat"
  casefold :: "ustr \<Rightarrow> ustr"
  re_findall :: "ustr \<Rightarrow> ustr \<Rightarrow> bool \<Rightarrow> py_exn + ustr list"

section \<open>Normalisation (classify2.py)\<close>

text \<open>\<open>re.sub(r"-\s+", "", s)\<close>: a hyphen and the white space after it disappear.\<close>

function dehyphen :: "ustr \<Rightarrow> ustr" where
  "dehyphen [] = []"
| "dehyphen (c # cs) =
     (if c = 45 \<and> cs \<noteq> [] \<and> is_space (hd cs) then dehyphen (dropWhile is_space cs)
      else c # dehyphen cs)"
  by pat_completeness auto
termination
  by (relation "measure length") (auto simp: less_Suc_eq_le length_dropWhile_le)

text \<open>\<open>re.sub(r"\s+", " ", s)\<close>: every run of white space becomes one space.\<close>

function collapse_ws :: "ustr \<Rightarrow> ustr" where
  "collapse_ws [] = []"
| "collapse_ws (c # cs) =
     (if is_space c then 32 # collapse_ws (dropWhile is_space cs)
      else c # collapse_ws cs)"
  by pat_completeness auto
termination
  by (relation "measure length") (auto simp: less_Suc_eq_le length_dropWhile_le)

text \<open>The steps of \<open>_clean_unicode_common\<close> after the NFKC composition.\<close>

definition clean_tail :: "ustr \<Rightarrow> ustr" where
  "clean_tail s0 =
     (let s = remove_cp 65279 s0;
          s = remove_cp 173 s;
          s = remove_cp 8203 s;
          s = remove_cp 8204 s;
          s = remove_cp 8205 s;
          s = replace_cp 160 32 s;
          s = dehyphen s
      in strip (collapse_ws s))"

definition clean_unicode_common :: "pylib \<Rightarrow> ustr \<Rightarrow> ustr" where
  "clean_unicode_common L s = clean_tail (nfkc L s)"

definition strip_accents :: "pylib \<Rightarrow> ustr \<Rightarrow> ustr" where
  "strip_accents L s = filter (\<lambda>c. combining L c = 0) (nfkd L s)"

definition normalize :: "pylib \<Rightarrow> ustr \<Rightarrow> bool \<Rightarrow> bool \<Rightarrow> ustr" where
  "normalize L s0 cf sa =
     (let s = clean_unicode_common L s0;
          s = (if cf then casefold L s else s);
          s = (if sa then strip_accents L s else s)
      in s)"

section \<open>Rules (classify2.py)\<close>

text \<open>
  A Python dict keeps its keys in the order of their first insertion, and an assignment
  to a key that is present replaces the value where it stands: an association list with
  \<open>AList.update\<close>.
\<close>

type_synonym rules = "(ustr \<times> ustr list) list"

definition is_rule_line :: "ustr \<Rightarrow> bool" where
  "is_rule_line line0 \<longleftrightarrow>
     (let line = strip line0 in line \<noteq> [] \<and> \<not> startswith line (U ''#'') \<and> 58 \<in> set line)"

definition rule_cat :: "ustr \<Rightarrow> ustr" where
  "rule_cat line0 = strip (fst (split_first 58 (strip line0)))"

definition rule_terms :: "ustr \<Rightarrow> ustr list" where
  "rule_terms line0 =
     map strip (filter (\<lambda>t. strip t \<noteq> []) (split_on 59 (snd (split_first 58 (strip line0)))))"

text \<open>One turn of the loop of \<open>load_rules\<close>.\<close>

definition load_line :: "rules \<Rightarrow> ustr \<Rightarrow> rules" where
  "load_line rules line0 =
     (let line = strip line0 in
      if line = [] \<or> startswith line (U ''#'') then rules
      else if 58 \<notin> set line then rules
      else
        (let (cat, rest) = split_first 58 line;
             cat = strip cat;
             terms = map strip (filter (\<lambda>t. strip t \<noteq> []) (split_on 59 rest))
         in AList.update cat terms rules))"

definition load_lines :: "ustr list \<Rightarrow> rules" where
  "load_lines ls = foldl load_line [] ls"

text \<open>\<open>load_rules\<close>, from the decoded text of the rules file.\<close>

definition load_rules :: "ustr \<Rightarrow> rules" where
  "load_rules text = load_lines (splitlines text)"

text \<open>The start of \<open>main\<close>: the run stops when no rule was loaded.\<close>

definition main_rules :: "ustr \<Rightarrow> py_exn + rules" where
  "main_rules text = (let rules = load_rules text in if rules = [] then Inl SystemExit else Inr rules)"

section \<open>Matching one term (classify2.py)\<close>

definition parse_term :: "ustr \<Rightarrow> string \<times> ustr" where
  "parse_term term0 =
     (let t = strip term0 in
      if startswith t (U ''re/i:'') then (''re_i'', strip (drop 5 t))
      else if startswith t (U ''re:'') then (''re'', strip (drop 3 t))
      else if startswith t (U ''ci:'') then (''ci'', strip (drop 3 t))
      else if startswith t (U ''na:'') then (''na'', strip (drop 3 t))
      else if startswith t (U ''lit:'') then (''lit'', strip (drop 4 t))
      else (''lit'', t))"

definition unquote_if_needed :: "ustr \<Rightarrow> ustr" where
  "unquote_if_needed t0 =
     (let t = strip t0 in
      if (startswith t [34] \<and> endswith t [34]) \<or> (startswith t [39] \<and> endswith t [39])
      then butlast (tl t)
      else t)"

definition count_literal :: "pylib \<Rightarrow> ustr \<Rightarrow> ustr \<Rightarrow> bool \<Rightarrow> bool \<Rightarrow> int" where
  "count_literal L text needle cf sa =
     (let tn = normalize L text cf sa;
          nn = normalize L needle cf sa
      in if nn = [] then 0 else int (str_count tn nn))"

text \<open>\<open>count_regex\<close> catches \<open>re.error\<close> and nothing else.\<close>

definition count_regex :: "pylib \<Rightarrow> ustr \<Rightarrow> ustr \<Rightarrow> bool \<Rightarrow> py_exn + int" where
  "count_regex L text pattern ignore_case =
     (if pattern = [] then Inr 0
      else
        (case re_findall L pattern text ignore_case of
           Inr ms \<Rightarrow> Inr (int (length ms))
         | Inl Re_error \<Rightarrow> Inr 0
         | Inl e \<Rightarrow> Inl e))"

definition term_match_count :: "pylib \<Rightarrow> ustr \<Rightarrow> ustr \<Rightarrow> py_exn + int" where
  "term_match_count L text term0 =
     (let (mode, payload) = parse_term term0;
          payload = unquote_if_needed payload
      in
        if mode = ''re'' then count_regex L (clean_unicode_common L text) payload False
        else if mode = ''re_i'' then count_regex L (clean_unicode_common L text) payload True
        else if mode = ''ci'' then Inr (count_literal L text payload True False)
        else if mode = ''na'' then Inr (count_literal L text payload True True)
        else
          (let t = clean_unicode_common L text;
               n = clean_unicode_common L payload
           in if n = [] then Inr 0 else Inr (int (str_count t n))))"

section \<open>Scoring and decision (classify2.py)\<close>

type_synonym scored = "ustr \<times> int \<times> ustr"

text \<open>The inner loop of \<open>best_two_categories\<close>: the score and the hits of one category.\<close>

fun score_terms :: "pylib \<Rightarrow> ustr \<Rightarrow> ustr list \<Rightarrow> int \<times> ustr list \<Rightarrow> py_exn + (int \<times> ustr list)" where
  "score_terms L text [] acc = Inr acc"
| "score_terms L text (t # ts) (score, hits_parts) =
     (case term_match_count L text t of
        Inl e \<Rightarrow> Inl e
      | Inr c \<Rightarrow>
          if c > 0
          then score_terms L text ts (score + c, hits_parts @ [t @ U ''('' @ str_int c @ U '')''])
          else score_terms L text ts (score, hits_parts))"

text \<open>The outer loop: one entry for each category, in the order of the dict.\<close>

fun score_all :: "pylib \<Rightarrow> ustr \<Rightarrow> rules \<Rightarrow> py_exn + scored list" where
  "score_all L text [] = Inr []"
| "score_all L text ((cat, terms) # rest) =
     (case score_terms L text terms (0, []) of
        Inl e \<Rightarrow> Inl e
      | Inr (score, hits_parts) \<Rightarrow>
          (case score_all L text rest of
             Inl e \<Rightarrow> Inl e
           | Inr xs \<Rightarrow> Inr ((cat, score, join (U '', '') hits_parts) # xs)))"

text \<open>
  \<open>scored.sort(key=lambda x: x[1], reverse=True)\<close>: Python's sort is stable, also with
  \<open>reverse=True\<close>; it is a stable sort on the negated key.
\<close>

definition sort_by_score_desc :: "scored list \<Rightarrow> scored list" where
  "sort_by_score_desc xs = sort_key (\<lambda>x. - fst (snd x)) xs"

definition ranking :: "pylib \<Rightarrow> ustr \<Rightarrow> rules \<Rightarrow> py_exn + scored list" where
  "ranking L text rules =
     (case score_all L text rules of Inl e \<Rightarrow> Inl e | Inr xs \<Rightarrow> Inr (sort_by_score_desc xs))"

definition unknown :: scored where
  "unknown = (U ''UNKNOWN'', 0, [])"

definition best_two_categories :: "pylib \<Rightarrow> ustr \<Rightarrow> rules \<Rightarrow> py_exn + (scored \<times> scored)" where
  "best_two_categories L text rules =
     (case ranking L text rules of
        Inl e \<Rightarrow> Inl e
      | Inr scored \<Rightarrow>
          (let top1 = (case scored of [] \<Rightarrow> unknown | x # _ \<Rightarrow> x);
               top2 = (case scored of _ # y # _ \<Rightarrow> y | _ \<Rightarrow> unknown)
           in Inr (top1, top2)))"

definition DEFAULT_AUTO_THRESHOLD :: int where
  "DEFAULT_AUTO_THRESHOLD = 2"

definition DEFAULT_REVIEW_GAP :: int where
  "DEFAULT_REVIEW_GAP = 1"

text \<open>The columns that \<open>main\<close> adds to the row of one document.\<close>

record outcome =
  label :: ustr
  score :: ustr
  hits :: ustr
  top2_label :: ustr
  top2_score :: ustr
  decision :: ustr

text \<open>The body of the loop of \<open>main\<close>, from the text read for the document.\<close>

definition classify_doc :: "pylib \<Rightarrow> rules \<Rightarrow> ustr \<Rightarrow> py_exn + outcome" where
  "classify_doc L rules text =
     (if strip text = [] then
        Inr \<lparr>label = U ''NO_TEXT'', score = U ''0'', hits = [], top2_label = [], top2_score = [],
             decision = U ''NEEDS_OCR_OR_BETTER_EXTRACT''\<rparr>
      else
        (case best_two_categories L text rules of
           Inl e \<Rightarrow> Inl e
         | Inr ((c1, s1, h1), (c2, s2, h2)) \<Rightarrow>
             Inr \<lparr>label = c1, score = str_int s1, hits = h1, top2_label = c2, top2_score = str_int s2,
                  decision =
                    (if s1 \<ge> DEFAULT_AUTO_THRESHOLD \<and> (s1 - s2) > DEFAULT_REVIEW_GAP \<and> c1 \<noteq> U ''UNKNOWN''
                     then U ''AUTO'' else U ''REVIEW'')\<rparr>))"

section \<open>A library instance for evaluation\<close>

text \<open>
  An instance of the library parameter on which the definitions can be run. It agrees
  with CPython on ASCII text, on the invisible marks and the no-break space, and on the
  pair \<open>e\<close>, U+0301, which NFKC composes into U+00E9 when the two are adjacent. Its
  regex engine knows the pattern \<open>[unclosed\<close>, which \<open>re\<close> rejects with \<open>re.error\<close>, the
  pattern \<open>a{4294967296}\<close>, at which \<open>re\<close> raises OverflowError (the repetition number
  is too large), and patterns of letters and digits, which match themselves; on other
  patterns it is arbitrary, and no theorem below runs it there.
\<close>

fun nfkc0 :: "ustr \<Rightarrow> ustr" where
  "nfkc0 [] = []"
| "nfkc0 [c] = [if c = 160 then 32 else c]"
| "nfkc0 (c # d # cs) =
     (if c = 101 \<and> d = 769 then 233 # nfkc0 cs
      else (if c = 160 then 32 else c) # nfkc0 (d # cs))"

definition nfkd0 :: "ustr \<Rightarrow> ustr" where
  "nfkd0 s = concat (map (\<lambda>c. if c = 233 then [101, 769] else if c = 160 then [32] else [c]) s)"

definition ascii_lower :: "nat \<Rightarrow> nat" where
  "ascii_lower c = (if 65 \<le> c \<and> c \<le> 90 then c + 32 else c)"

fun matches_of :: "ustr \<Rightarrow> ustr \<Rightarrow> ustr list" where
  "matches_of [] p = []"
| "matches_of (c # cs) p =
     (if p \<noteq> [] \<and> startswith (c # cs) p then p # matches_of (drop (length p - 1) cs) p
      else matches_of cs p)"

definition re_findall0 :: "ustr \<Rightarrow> ustr \<Rightarrow> bool \<Rightarrow> py_exn + ustr list" where
  "re_findall0 pattern text ignore_case =
     (if pattern = U ''[unclosed'' then Inl Re_error
      else if pattern = U ''a{4294967296}'' then Inl OverflowError
      else if ignore_case then Inr (matches_of (map ascii_lower text) (map ascii_lower pattern))
      else Inr (matches_of text pattern))"

definition lib0 :: pylib where
  "lib0 = \<lparr>nfkc = nfkc0, nfkd = nfkd0, combining = (\<lambda>c. if c = 769 then 230 else 0),
           casefold = map ascii_lower, re_findall = re_findall0\<rparr>"

text \<open>What every Unicode library does on ASCII text.\<close>

definition ascii_faithful :: "pylib \<Rightarrow> bool" where
  "ascii_faithful L \<longleftrightarrow>
     (\<forall>s. (\<forall>c \<in> set s. c < 128) \<longrightarrow> nfkc L s = s \<and> casefold L s = map ascii_lower s)"

section \<open>Shapes of cleaned text\<close>

text \<open>
  Two properties of strings that the proofs about \<open>_clean_unicode_common\<close> use: no hyphen
  is followed by white space, and white space occurs only as single spaces.
\<close>

fun no_hyphen_space :: "ustr \<Rightarrow> bool" where
  "no_hyphen_space [] = True"
| "no_hyphen_space (c # cs) = ((c = 45 \<longrightarrow> cs = [] \<or> \<not> is_space (hd cs)) \<and> no_hyphen_space cs)"

fun single_spaced :: "ustr \<Rightarrow> bool" where
  "single_spaced [] = True"
| "single_spaced (c # cs) =
     ((is_space c \<longrightarrow> c = 32 \<and> (cs = [] \<or> \<not> is_space (hd cs))) \<and> single_spaced cs)"

lemmas str_defs = U_def is_space_def lstrip_def rstrip_def strip_def startswith_def endswith_def remove_cp_def replace_cp_def
lemmas clean_defs = clean_unicode_common_def clean_tail_def
lemmas lib0_defs = lib0_def ascii_lower_def re_findall0_def nfkd0_def
lemmas match_defs = term_match_count_def parse_term_def unquote_if_needed_def count_literal_def count_regex_def normalize_def strip_accents_def
lemmas rank_defs = classify_doc_def best_two_categories_def ranking_def sort_by_score_desc_def unknown_def str_int_def str_nat.simps DEFAULT_AUTO_THRESHOLD_def DEFAULT_REVIEW_GAP_def

section \<open>Evaluation and string lemmas\<close>

lemma all_dropWhile: "(\<forall>x \<in> set (dropWhile P s). P x) \<longleftrightarrow> (\<forall>x \<in> set s. P x)"
  by (induction s) auto

lemma strip_empty_iff: "strip s = [] \<longleftrightarrow> (\<forall>c \<in> set s. is_space c)"
  by (simp add: strip_def lstrip_def rstrip_def dropWhile_eq_Nil_conv all_dropWhile)

lemma auto_neq_review: "U ''AUTO'' \<noteq> U ''REVIEW''"
  by (simp add: U_def)

section \<open>The decision policy\<close>

text \<open>
  Claim C1. For a document whose text is not only white space, with the thresholds 2 and 1
  of the source, the decision is AUTO exactly when the top score is at least 2, the gap
  to the runner-up is greater than 1 and the top category is not UNKNOWN; otherwise it is
  REVIEW, in particular at the boundary where the score is 2 and the gap is exactly 1.
\<close>

theorem C1_decision_rule:
  assumes "\<not> (\<forall>c \<in> set text. is_space c)"
    and "best_two_categories L text rules = Inr ((c1, s1, h1), (c2, s2, h2))"
  shows "\<exists>out. classify_doc L rules text = Inr out \<and> label out = c1 \<and> top2_label out = c2 \<and>
           decision out = (if 2 \<le> s1 \<and> 1 < s1 - s2 \<and> c1 \<noteq> U ''UNKNOWN'' then U ''AUTO'' else U ''REVIEW'') \<and>
           (decision out = U ''AUTO'' \<longleftrightarrow> 2 \<le> s1 \<and> 1 < s1 - s2 \<and> c1 \<noteq> U ''UNKNOWN'') \<and>
           (s1 = 2 \<and> s1 - s2 = 1 \<longrightarrow> decision out = U ''REVIEW'')"
proof -
  from assms(1) have "strip text \<noteq> []"
    by (simp add: strip_empty_iff)
  with assms(2) show ?thesis
    using auto_neq_review
    by (simp add: classify_doc_def DEFAULT_AUTO_THRESHOLD_def DEFAULT_REVIEW_GAP_def)
qed

lemma tmc_foo: "term_match_count lib0 (U ''foo foo'') (U ''ci:foo'') = Inr 2"
  by (simp add: match_defs clean_defs str_defs lib0_defs)

lemma best_two_foo:
  "best_two_categories lib0 (U ''foo foo'') [(U ''A'', [U ''ci:foo'']), (U ''B'', [U ''ci:foo''])] =
     Inr ((U ''A'', 2, U ''ci:foo(2)''), (U ''B'', 2, U ''ci:foo(2)''))"
  by (simp add: rank_defs tmc_foo) (simp add: U_def)

theorem C1_decision_rule_witness:
  "\<not> (\<forall>c \<in> set (U ''foo foo''). is_space c) \<and>
   (\<exists>out. classify_doc lib0 [(U ''A'', [U ''ci:foo'']), (U ''B'', [U ''ci:foo''])] (U ''foo foo'') = Inr out \<and>
      label out = U ''A'' \<and> top2_label out = U ''B'' \<and> decision out = U ''REVIEW'')"
proof -
  have ns: "\<not> (\<forall>c \<in> set (U ''foo foo''). is_space c)"
    by (simp add: U_def is_space_def)
  from C1_decision_rule [OF ns best_two_foo] ns show ?thesis
    by auto
qed

text \<open>
  Claim C4. A document whose text is empty or white space only gets the outcome
  NEEDS_OCR_OR_BETTER_EXTRACT with label NO_TEXT, score 0 and no hits, whatever the rules
  and whatever the library would do in scoring: scoring is not reached.
\<close>

theorem C4_no_text:
  assumes "\<forall>c \<in> set text. is_space c"
  shows "classify_doc L rules text =
           Inr \<lparr>label = U ''NO_TEXT'', score = U ''0'', hits = [], top2_label = [], top2_score = [],
                decision = U ''NEEDS_OCR_OR_BETTER_EXTRACT''\<rparr>"
  using assms by (simp add: classify_doc_def strip_empty_iff)

theorem C4_no_text_witness:
  "list_all is_space [32, 10, 9] \<and>
   classify_doc lib0 [(U ''A'', [U ''re:a{4294967296}''])] [32, 10, 9] =
     Inr \<lparr>label = U ''NO_TEXT'', score = U ''0'', hits = [], top2_label = [], top2_score = [],
          decision = U ''NEEDS_OCR_OR_BETTER_EXTRACT''\<rparr>"
proof -
  have sp: "\<forall>c \<in> set [32, 10, 9]. is_space c"
    by (simp add: is_space_def)
  from C4_no_text [OF sp] sp show ?thesis
    by (simp add: list_all_iff)
qed



section \<open>Matching one term\<close>




lemma tmc_nonneg: "term_match_count L text t = Inr n \<Longrightarrow> 0 \<le> n"
  by (auto simp: term_match_count_def count_regex_def count_literal_def Let_def
      split: prod.splits if_splits sum.splits py_exn.splits)

lemma tmc_literal_total:
  "fst (parse_term t) \<noteq> ''re'' \<Longrightarrow> fst (parse_term t) \<noteq> ''re_i'' \<Longrightarrow> \<exists>n. term_match_count L text t = Inr n \<and> 0 \<le> n"
  by (auto simp: term_match_count_def count_literal_def Let_def split: prod.splits)

lemma tmc_total_when_only_re_error:
  assumes "\<forall>p tx ic e. re_findall L p tx ic = Inl e \<longrightarrow> e = Re_error"
  shows "\<exists>n. term_match_count L text t = Inr n \<and> 0 \<le> n"
proof -
  have r: "\<exists>n. count_regex L tx p ic = Inr n \<and> 0 \<le> n" for tx p ic
  proof (cases "re_findall L p tx ic")
    case (Inl e)
    with assms have "e = Re_error"
      by blast
    with Inl show ?thesis
      by (simp add: count_regex_def)
  next
    case (Inr ms)
    then show ?thesis
      by (simp add: count_regex_def)
  qed
  obtain m p where mp: "parse_term t = (m, p)"
    by (cases "parse_term t")
  show ?thesis
    using r [of "clean_unicode_common L text" "unquote_if_needed p"]
    by (auto simp: term_match_count_def mp count_literal_def Let_def)
qed

lemma tmc_lone_quote: "term_match_count L text (U ''re:'' @ [34]) = Inr 0"
  by (simp add: match_defs str_defs)

lemma score_terms_nonneg:
  "score_terms L text ts (s, hs) = Inr (s', hs') \<Longrightarrow> 0 \<le> s \<Longrightarrow> 0 \<le> s'"
proof (induction ts arbitrary: s hs)
  case Nil
  then show ?case by simp
next
  case (Cons t ts)
  show ?case
  proof (cases "term_match_count L text t")
    case (Inl e)
    with Cons.prems show ?thesis
      by simp
  next
    case (Inr c)
    show ?thesis
    proof (cases "0 < c")
      case True
      with Cons.prems Inr have "score_terms L text ts (s + c, hs @ [t @ U ''('' @ str_int c @ U '')'']) = Inr (s', hs')"
        by simp
      moreover from True Cons.prems(2) have "0 \<le> s + c"
        by simp
      ultimately show ?thesis
        by (rule Cons.IH)
    next
      case False
      with Cons.prems Inr have "score_terms L text ts (s, hs) = Inr (s', hs')"
        by simp
      then show ?thesis
        using Cons.prems(2) by (rule Cons.IH)
    qed
  qed
qed

text \<open>
  Claim C10 says that \<open>term_match_count\<close> returns a non-negative integer for every text
  and term and never raises. The literal modes do (\<open>tmc_literal_total\<close>), every count
  returned is non-negative (\<open>tmc_nonneg\<close>), and so is every score (\<open>score_terms_nonneg\<close>);
  a regex library that raised nothing but \<open>re.error\<close> would make the function total
  (\<open>tmc_total_when_only_re_error\<close>). But \<open>count_regex\<close> catches only \<open>re.error\<close>: when
  the regex library raises another exception for the payload, \<open>term_match_count\<close> raises
  it too. CPython does so for a repetition number of
  \<open>2^32\<close> or more, as in \<open>re:a{4294967296}\<close> (OverflowError).
\<close>

theorem C10_regex_exception_escapes:
  assumes "parse_term t = (m, p)" and "m = ''re'' \<or> m = ''re_i''"
    and "unquote_if_needed p \<noteq> []"
    and "re_findall L (unquote_if_needed p) (clean_unicode_common L text) (m = ''re_i'') = Inl e"
    and "e \<noteq> Re_error"
  shows "term_match_count L text t = Inl e"
  using assms by (cases e) (auto simp: term_match_count_def count_regex_def)

lemma parse_overflow: "parse_term (U ''re:a{4294967296}'') = (''re'', U ''a{4294967296}'')"
  by (simp add: parse_term_def str_defs)

lemma unquote_overflow: "unquote_if_needed (U ''a{4294967296}'') = U ''a{4294967296}''"
  by (simp add: unquote_if_needed_def str_defs)

lemma lib0_overflow: "re_findall lib0 (U ''a{4294967296}'') tx False = Inl OverflowError"
  by (simp add: lib0_defs U_def)

theorem C10_regex_exception_escapes_witness:
  "term_match_count lib0 (U ''a'') (U ''re:a{4294967296}'') = Inl OverflowError"
proof -
  have ne: "unquote_if_needed (U ''a{4294967296}'') \<noteq> []"
    by (simp add: unquote_overflow) (simp add: U_def)
  have f: "re_findall lib0 (unquote_if_needed (U ''a{4294967296}'')) (clean_unicode_common lib0 (U ''a'')) (''re'' = ''re_i'') = Inl OverflowError"
    by (simp add: unquote_overflow lib0_overflow)
  show ?thesis
    using C10_regex_exception_escapes [OF parse_overflow _ ne f] by simp
qed

lemma sort_desc_all_equal:
  assumes "\<forall>x \<in> set xs. fst (snd x) = (k::int)"
  shows "sort_by_score_desc xs = xs"
proof -
  from assms have "map (\<lambda>x. - fst (snd x)) xs = replicate (length xs) (- k)"
    by (induction xs) auto
  then have "sorted (map (\<lambda>x. - fst (snd x)) xs)"
    by (simp add: sorted_replicate)
  then show ?thesis
    unfolding sort_by_score_desc_def by (rule sort_key_id_if_sorted)
qed

lemma score_all_Cons:
  "score_all L text ((cat, terms) # rest) = Inr xs \<Longrightarrow> \<exists>s h xs'. xs = (cat, s, h) # xs'"
  by (auto split: sum.splits prod.splits)

section \<open>Ranking\<close>

text \<open>
  Claim C2 says that the top entry is UNKNOWN with score 0 when no term matches. In
  \<open>best_two_categories\<close> the UNKNOWN entry only fills a place that the ranking lacks: as
  soon as there is one category, the top entry of a document that matches nothing is the
  first category of the rules, with score 0.
\<close>

theorem C2_first_category_on_top_when_nothing_matches:
  assumes "score_all L text ((cat, terms) # rest) = Inr xs"
    and "\<forall>x \<in> set xs. fst (snd x) = 0"
  shows "\<exists>h t2. best_two_categories L text ((cat, terms) # rest) = Inr ((cat, 0, h), t2)"
proof -
  from score_all_Cons [OF assms(1)] obtain s h xs' where xs: "xs = (cat, s, h) # xs'"
    by blast
  with assms(2) have s: "s = 0"
    by simp
  have "ranking L text ((cat, terms) # rest) = Inr xs"
    using assms(1) sort_desc_all_equal [OF assms(2)] by (simp add: ranking_def)
  then have "best_two_categories L text ((cat, terms) # rest) =
      Inr ((cat, 0, h), (case xs' of [] \<Rightarrow> unknown | y # _ \<Rightarrow> y))"
    by (simp add: best_two_categories_def xs s)
  then show ?thesis
    by blast
qed

lemma tmc_x_y: "term_match_count lib0 (U ''y'') (U ''x'') = Inr 0"
  by (simp add: match_defs clean_defs str_defs lib0_defs)

lemma score_all_x_y: "score_all lib0 (U ''y'') [(U ''A'', [U ''x''])] = Inr [(U ''A'', 0, [])]"
  by (simp add: tmc_x_y)

theorem C2_first_category_on_top_when_nothing_matches_witness:
  "best_two_categories lib0 (U ''y'') [(U ''A'', [U ''x''])] = Inr ((U ''A'', 0, []), (U ''UNKNOWN'', 0, [])) \<and>
   U ''A'' \<noteq> U ''UNKNOWN''"
proof -
  have z: "\<forall>x \<in> set [(U ''A'', 0::int, [])]. fst (snd x) = 0"
    by simp
  from C2_first_category_on_top_when_nothing_matches [OF score_all_x_y z]
  obtain h t2 where "best_two_categories lib0 (U ''y'') [(U ''A'', [U ''x''])] = Inr ((U ''A'', 0, h), t2)"
    by blast
  moreover have "best_two_categories lib0 (U ''y'') [(U ''A'', [U ''x''])] = Inr ((U ''A'', 0, []), (U ''UNKNOWN'', 0, []))"
    by (simp add: best_two_categories_def ranking_def sort_by_score_desc_def unknown_def tmc_x_y)
  moreover have "U ''A'' \<noteq> U ''UNKNOWN''"
    by (simp add: U_def)
  ultimately show ?thesis
    by simp
qed

lemma score_all_keys: "score_all L text rules = Inr xs \<Longrightarrow> map fst xs = map fst rules"
proof (induction rules arbitrary: xs)
  case Nil
  then show ?case by simp
next
  case (Cons r rules)
  obtain cat terms where r: "r = (cat, terms)"
    by (cases r)
  from Cons.prems Cons.IH show ?case
    by (auto simp: r split: sum.splits prod.splits)
qed

lemma sort_desc_sorted: "sorted_wrt (\<lambda>a b. fst (snd b) \<le> fst (snd a)) (sort_by_score_desc xs)"
proof -
  have "sorted (map (\<lambda>x. - fst (snd x)) (sort_by_score_desc xs))"
    unfolding sort_by_score_desc_def by (rule sorted_sort_key)
  then show ?thesis
    by (simp add: sorted_map)
qed

lemma sort_desc_stable:
  "filter (\<lambda>x. fst (snd x) = k) (sort_by_score_desc xs) = filter (\<lambda>x. fst (snd x) = k) xs"
proof -
  have "filter (\<lambda>x. - fst (snd x) = - k) (sort_key (\<lambda>x. - fst (snd x)) xs) =
        filter (\<lambda>x. - fst (snd x) = - k) xs"
    by (rule sort_key_stable)
  then show ?thesis
    by (simp add: sort_by_score_desc_def)
qed

lemma load_line_rule: "is_rule_line l \<Longrightarrow> load_line rs l = AList.update (rule_cat l) (rule_terms l) rs"
  by (simp add: load_line_def is_rule_line_def rule_cat_def rule_terms_def Let_def split: prod.splits)

lemma load_line_skip: "\<not> is_rule_line l \<Longrightarrow> load_line rs l = rs"
  by (auto simp: load_line_def is_rule_line_def Let_def)

lemma update_keys:
  "map fst (AList.update k v al) = (if k \<in> fst ` set al then map fst al else map fst al @ [k])"
  by (induction al) auto

lemma load_lines_snoc: "load_lines (ls @ [l]) = load_line (load_lines ls) l"
  by (simp add: load_lines_def)

lemma ascii_nfkc: "ascii_faithful L \<Longrightarrow> list_all (\<lambda>c. c < 128) s \<Longrightarrow> nfkc L s = s"
  by (simp add: ascii_faithful_def list_all_iff)

lemma ascii_casefold: "ascii_faithful L \<Longrightarrow> list_all (\<lambda>c. c < 128) s \<Longrightarrow> casefold L s = map ascii_lower s"
  by (simp add: ascii_faithful_def list_all_iff)

lemma nfkc0_ascii: "\<forall>c \<in> set s. c < 128 \<Longrightarrow> nfkc0 s = s"
  by (induction s rule: nfkc0.induct) auto

lemma lib0_ascii_faithful: "ascii_faithful lib0"
  by (simp add: ascii_faithful_def lib0_def nfkc0_ascii)

lemma tmc_foo_ascii:
  assumes "ascii_faithful L"
  shows "term_match_count L (U ''foo foo'') (U ''ci:foo'') = Inr 2"
  using assms
  by (simp add: match_defs clean_defs str_defs ascii_nfkc ascii_casefold ascii_lower_def)

lemma scenario_B:
  assumes "ascii_faithful L"
  shows "classify_doc L [(U ''A'', [U ''ci:foo'']), (U ''B'', [U ''ci:foo''])] (U ''foo foo'') =
     Inr \<lparr>label = U ''A'', score = U ''2'', hits = U ''ci:foo(2)'', top2_label = U ''B'',
          top2_score = U ''2'', decision = U ''REVIEW''\<rparr>"
  by (simp add: rank_defs tmc_foo_ascii [OF assms]) (simp add: str_defs)

lemma tmc_invoice:
  assumes "ascii_faithful L"
  shows "term_match_count L (U ''Invoice total. Nota Fiscal 123. INVOICE due.'') (U ''ci:invoice'') = Inr 2"
  using assms
  by (simp add: match_defs clean_defs str_defs ascii_nfkc ascii_casefold ascii_lower_def)

lemma tmc_nota:
  assumes "ascii_faithful L"
  shows "term_match_count L (U ''Invoice total. Nota Fiscal 123. INVOICE due.'') (U ''ci:nota fiscal'') = Inr 1"
  using assms
  by (simp add: match_defs clean_defs str_defs ascii_nfkc ascii_casefold ascii_lower_def)

lemma scenario_A:
  assumes "ascii_faithful L"
  shows "classify_doc L [(U ''INVOICE'', [U ''ci:invoice'', U ''ci:nota fiscal''])]
           (U ''Invoice total. Nota Fiscal 123. INVOICE due.'') =
     Inr \<lparr>label = U ''INVOICE'', score = U ''3'', hits = U ''ci:invoice(2), ci:nota fiscal(1)'',
          top2_label = U ''UNKNOWN'', top2_score = U ''0'', decision = U ''AUTO''\<rparr>"
  by (simp add: rank_defs tmc_invoice [OF assms] tmc_nota [OF assms]) (simp add: str_defs)

lemma load_lines_keys_snoc:
  "map fst (load_lines (ls @ [l])) =
     (if is_rule_line l \<and> rule_cat l \<notin> fst ` set (load_lines ls)
      then map fst (load_lines ls) @ [rule_cat l] else map fst (load_lines ls))"
  by (cases "is_rule_line l") (simp_all add: load_lines_snoc load_line_rule load_line_skip update_keys)

text \<open>
  Claim C3. The ranking holds one entry for each category, sorted by descending score; the
  sort is stable, so the entries of equal score keep the order of the rules, which is the
  order in which the categories first appear in the definition. With the rules
  \<open>A: ci:foo\<close> and \<open>B: ci:foo\<close> and the text \<open>foo foo\<close>, both score 2, the top is A,
  the runner-up is B and the decision is REVIEW.
\<close>

theorem C3_ranking_stable_descending:
  "(score_all L text rules = Inr xs \<longrightarrow>
      (\<exists>r. ranking L text rules = Inr r \<and>
           map fst xs = map fst rules \<and>
           mset r = mset xs \<and>
           sorted_wrt (\<lambda>a b. fst (snd b) \<le> fst (snd a)) r \<and>
           filter (\<lambda>x. fst (snd x) = k) r = filter (\<lambda>x. fst (snd x) = k) xs)) \<and>
   map fst (load_lines (ls @ [l])) =
     (if is_rule_line l \<and> rule_cat l \<notin> fst ` set (load_lines ls)
      then map fst (load_lines ls) @ [rule_cat l] else map fst (load_lines ls)) \<and>
   (ascii_faithful L \<longrightarrow>
      classify_doc L [(U ''A'', [U ''ci:foo'']), (U ''B'', [U ''ci:foo''])] (U ''foo foo'') =
        Inr \<lparr>label = U ''A'', score = U ''2'', hits = U ''ci:foo(2)'', top2_label = U ''B'',
             top2_score = U ''2'', decision = U ''REVIEW''\<rparr>)"
proof (intro conjI impI)
  assume sc: "score_all L text rules = Inr xs"
  have "ranking L text rules = Inr (sort_by_score_desc xs)"
    by (simp add: ranking_def sc)
  moreover have "mset (sort_by_score_desc xs) = mset xs"
    by (simp add: sort_by_score_desc_def)
  ultimately show "\<exists>r. ranking L text rules = Inr r \<and>
           map fst xs = map fst rules \<and>
           mset r = mset xs \<and>
           sorted_wrt (\<lambda>a b. fst (snd b) \<le> fst (snd a)) r \<and>
           filter (\<lambda>x. fst (snd x) = k) r = filter (\<lambda>x. fst (snd x) = k) xs"
    using score_all_keys [OF sc] sort_desc_sorted [of xs] sort_desc_stable [of k xs]
    by blast
next
  show "map fst (load_lines (ls @ [l])) =
     (if is_rule_line l \<and> rule_cat l \<notin> fst ` set (load_lines ls)
      then map fst (load_lines ls) @ [rule_cat l] else map fst (load_lines ls))"
    by (rule load_lines_keys_snoc)
next
  assume "ascii_faithful L"
  then show "classify_doc L [(U ''A'', [U ''ci:foo'']), (U ''B'', [U ''ci:foo''])] (U ''foo foo'') =
        Inr \<lparr>label = U ''A'', score = U ''2'', hits = U ''ci:foo(2)'', top2_label = U ''B'',
             top2_score = U ''2'', decision = U ''REVIEW''\<rparr>"
    by (rule scenario_B)
qed

lemma score_all_foo:
  "score_all lib0 (U ''foo foo'') [(U ''A'', [U ''ci:foo'']), (U ''B'', [U ''ci:foo''])] =
     Inr [(U ''A'', 2, U ''ci:foo(2)''), (U ''B'', 2, U ''ci:foo(2)'')]"
  by (simp add: tmc_foo str_int_def str_nat.simps) (simp add: U_def)

theorem C3_ranking_stable_descending_witness:
  "(\<exists>r. ranking lib0 (U ''foo foo'') [(U ''A'', [U ''ci:foo'']), (U ''B'', [U ''ci:foo''])] = Inr r \<and>
        map fst r = [U ''A'', U ''B''] \<and> map (fst \<circ> snd) r = [2, 2]) \<and>
   classify_doc lib0 [(U ''A'', [U ''ci:foo'']), (U ''B'', [U ''ci:foo''])] (U ''foo foo'') =
     Inr \<lparr>label = U ''A'', score = U ''2'', hits = U ''ci:foo(2)'', top2_label = U ''B'',
          top2_score = U ''2'', decision = U ''REVIEW''\<rparr>"
proof -
  note c3 = C3_ranking_stable_descending [of lib0 "U ''foo foo''"
      "[(U ''A'', [U ''ci:foo'']), (U ''B'', [U ''ci:foo''])]"
      "[(U ''A'', 2, U ''ci:foo(2)''), (U ''B'', 2, U ''ci:foo(2)'')]" 2 "[]" "[]"]
  from c3 score_all_foo obtain r where
    r: "ranking lib0 (U ''foo foo'') [(U ''A'', [U ''ci:foo'']), (U ''B'', [U ''ci:foo''])] = Inr r"
    and st: "filter (\<lambda>x. fst (snd x) = 2) r =
       filter (\<lambda>x. fst (snd x) = 2) [(U ''A'', 2::int, U ''ci:foo(2)''), (U ''B'', 2, U ''ci:foo(2)'')]"
    and ms: "mset r = mset [(U ''A'', 2::int, U ''ci:foo(2)''), (U ''B'', 2, U ''ci:foo(2)'')]"
    by blast
  from ms have "set r = set [(U ''A'', 2::int, U ''ci:foo(2)''), (U ''B'', 2, U ''ci:foo(2)'')]"
    by (rule mset_eq_setD)
  then have "\<forall>x \<in> set r. fst (snd x) = 2"
    by auto
  then have "filter (\<lambda>x. fst (snd x) = 2) r = r"
    by simp
  with st have "r = [(U ''A'', 2, U ''ci:foo(2)''), (U ''B'', 2, U ''ci:foo(2)'')]"
    by simp
  with r have "\<exists>r. ranking lib0 (U ''foo foo'') [(U ''A'', [U ''ci:foo'']), (U ''B'', [U ''ci:foo''])] = Inr r \<and>
        map fst r = [U ''A'', U ''B''] \<and> map (fst \<circ> snd) r = [2, 2]"
    by simp
  with c3 lib0_ascii_faithful show ?thesis
    by blast
qed

text \<open>
  Claim C9. In the mode \<open>ci:\<close> the text and the payload are both cleaned and casefolded,
  and the count is the number of occurrences of the one in the other. With the rule
  \<open>INVOICE: ci:invoice; ci:nota fiscal\<close> and the text
  \<open>Invoice total. Nota Fiscal 123. INVOICE due.\<close> the score is 3, the runner-up is UNKNOWN
  with score 0 and the decision is AUTO.
\<close>

theorem C9_case_insensitive_literal:
  "(fst (parse_term t) = ''ci'' \<longrightarrow>
      term_match_count L text t =
        Inr (let tn = casefold L (clean_unicode_common L text);
                 nn = casefold L (clean_unicode_common L (unquote_if_needed (snd (parse_term t))))
             in if nn = [] then 0 else int (str_count tn nn))) \<and>
   (ascii_faithful L \<longrightarrow>
      classify_doc L [(U ''INVOICE'', [U ''ci:invoice'', U ''ci:nota fiscal''])]
           (U ''Invoice total. Nota Fiscal 123. INVOICE due.'') =
        Inr \<lparr>label = U ''INVOICE'', score = U ''3'', hits = U ''ci:invoice(2), ci:nota fiscal(1)'',
             top2_label = U ''UNKNOWN'', top2_score = U ''0'', decision = U ''AUTO''\<rparr>)"
proof (intro conjI impI)
  assume "fst (parse_term t) = ''ci''"
  then show "term_match_count L text t =
        Inr (let tn = casefold L (clean_unicode_common L text);
                 nn = casefold L (clean_unicode_common L (unquote_if_needed (snd (parse_term t))))
             in if nn = [] then 0 else int (str_count tn nn))"
    by (cases "parse_term t") (simp add: term_match_count_def count_literal_def normalize_def Let_def)
next
  assume "ascii_faithful L"
  then show "classify_doc L [(U ''INVOICE'', [U ''ci:invoice'', U ''ci:nota fiscal''])]
           (U ''Invoice total. Nota Fiscal 123. INVOICE due.'') =
        Inr \<lparr>label = U ''INVOICE'', score = U ''3'', hits = U ''ci:invoice(2), ci:nota fiscal(1)'',
             top2_label = U ''UNKNOWN'', top2_score = U ''0'', decision = U ''AUTO''\<rparr>"
    by (rule scenario_A)
qed

lemma parse_ci_invoice: "parse_term (U ''ci:invoice'') = (''ci'', U ''invoice'')"
  by (simp add: parse_term_def str_defs)

theorem C9_case_insensitive_literal_witness:
  "term_match_count lib0 (U ''Invoice total. Nota Fiscal 123. INVOICE due.'') (U ''ci:invoice'') = Inr 2 \<and>
   classify_doc lib0 [(U ''INVOICE'', [U ''ci:invoice'', U ''ci:nota fiscal''])]
           (U ''Invoice total. Nota Fiscal 123. INVOICE due.'') =
        Inr \<lparr>label = U ''INVOICE'', score = U ''3'', hits = U ''ci:invoice(2), ci:nota fiscal(1)'',
             top2_label = U ''UNKNOWN'', top2_score = U ''0'', decision = U ''AUTO''\<rparr>"
  using C9_case_insensitive_literal [of "U ''ci:invoice''" lib0 "U ''Invoice total. Nota Fiscal 123. INVOICE due.''"]
    lib0_ascii_faithful tmc_invoice [OF lib0_ascii_faithful]
  by (simp add: parse_ci_invoice)

lemma foldl_load_distinct:
  "distinct (map fst rs) \<Longrightarrow> distinct (map fst (foldl load_line rs ls))"
proof (induction ls arbitrary: rs)
  case Nil
  then show ?case by simp
next
  case (Cons l ls)
  have "distinct (map fst (load_line rs l))"
    using Cons.prems by (cases "is_rule_line l") (simp_all add: load_line_rule load_line_skip distinct_update)
  then show ?case
    using Cons.IH by simp
qed

lemma load_lines_distinct: "distinct (map fst (load_lines ls))"
  by (simp add: load_lines_def foldl_load_distinct)

lemma foldl_load_other:
  "\<forall>l \<in> set ls. is_rule_line l \<longrightarrow> rule_cat l \<noteq> c \<Longrightarrow>
     map_of (foldl load_line rs ls) c = map_of rs c"
proof (induction ls arbitrary: rs)
  case Nil
  then show ?case by simp
next
  case (Cons l ls)
  have "map_of (load_line rs l) c = map_of rs c"
    using Cons.prems by (cases "is_rule_line l") (auto simp: load_line_rule load_line_skip update_conv')
  with Cons show ?case
    by simp
qed

lemma load_lines_split:
  "load_lines (xs @ l # ys) = foldl load_line (load_line (load_lines xs) l) ys"
  by (simp add: load_lines_def)

lemma load_lines_last_wins:
  assumes "is_rule_line l" and "\<forall>l' \<in> set ys. is_rule_line l' \<longrightarrow> rule_cat l' \<noteq> rule_cat l"
  shows "map_of (load_lines (xs @ l # ys)) (rule_cat l) = Some (rule_terms l)"
  using assms by (simp add: load_lines_split foldl_load_other load_line_rule update_conv')

lemma distinct_single_entry:
  "distinct (map fst al) \<Longrightarrow> map_of al k = Some v \<Longrightarrow> filter (\<lambda>e. fst e = k) al = [(k, v)]"
proof (induction al)
  case Nil
  then show ?case by simp
next
  case (Cons a al)
  show ?case
  proof (cases "fst a = k")
    case True
    with Cons.prems have "a = (k, v)"
      by (cases a) simp
    moreover from True Cons.prems(1) have "\<forall>e \<in> set al. fst e \<noteq> k"
      by (auto simp: image_iff)
    then have "filter (\<lambda>e. fst e = k) al = []"
      by (simp add: filter_empty_conv)
    ultimately show ?thesis
      by simp
  next
    case False
    with Cons show ?thesis
      by (cases a) auto
  qed
qed

section \<open>Loading the rules\<close>

text \<open>
  Claim C8. The category names of the loaded rules are pairwise distinct, and when a
  category is defined on several lines, the terms of the last such line are the ones
  kept: the rules hold exactly one entry for the category, with those terms.
\<close>

theorem C8_last_definition_wins:
  assumes "splitlines text = xs @ l # ys"
    and "is_rule_line l"
    and "\<forall>l' \<in> set ys. is_rule_line l' \<longrightarrow> rule_cat l' \<noteq> rule_cat l"
  shows "distinct (map fst (load_rules text)) \<and>
         map_of (load_rules text) (rule_cat l) = Some (rule_terms l) \<and>
         filter (\<lambda>e. fst e = rule_cat l) (load_rules text) = [(rule_cat l, rule_terms l)]"
proof -
  have d: "distinct (map fst (load_rules text))"
    by (simp add: load_rules_def load_lines_distinct)
  have m: "map_of (load_rules text) (rule_cat l) = Some (rule_terms l)"
    using load_lines_last_wins [OF assms(2,3)] by (simp add: load_rules_def assms(1))
  from d m distinct_single_entry [OF d m] show ?thesis
    by simp
qed

lemma line_defs: "is_rule_line (U ''A: z'')" "rule_cat (U ''A: z'') = U ''A''" "rule_terms (U ''A: z'') = [U ''z'']"
  "is_rule_line (U ''B: y'')" "rule_cat (U ''B: y'') = U ''B''" 
  by (simp_all add: is_rule_line_def rule_cat_def rule_terms_def split_first_def str_defs)

lemma splitlines_three:
  "splitlines (U ''A: x; w'' @ [10] @ U ''A: z'' @ [13, 10] @ U ''B: y'') = [U ''A: x; w''] @ U ''A: z'' # [U ''B: y'']"
  by (simp add: splitlines_def U_def is_linebreak_def)

theorem C8_last_definition_wins_witness:
  "load_rules (U ''A: x; w'' @ [10] @ U ''A: z'' @ [13, 10] @ U ''B: y'') = [(U ''A'', [U ''z'']), (U ''B'', [U ''y''])] \<and>
   map_of (load_rules (U ''A: x; w'' @ [10] @ U ''A: z'' @ [13, 10] @ U ''B: y'')) (U ''A'') = Some [U ''z'']"
proof -
  have o: "\<forall>l' \<in> set [U ''B: y'']. is_rule_line l' \<longrightarrow> rule_cat l' \<noteq> rule_cat (U ''A: z'')"
    by (simp add: line_defs) (simp add: U_def)
  have e: "load_rules (U ''A: x; w'' @ [10] @ U ''A: z'' @ [13, 10] @ U ''B: y'') = [(U ''A'', [U ''z'']), (U ''B'', [U ''y''])]"
    unfolding load_rules_def splitlines_three
    by (simp add: load_lines_def load_line_def split_first_def str_defs)
  from C8_last_definition_wins [OF splitlines_three line_defs(1) o] e show ?thesis
    by (simp add: line_defs)
qed

lemma not_rule_line_iff:
  "\<not> is_rule_line l \<longleftrightarrow> strip l = [] \<or> startswith (strip l) (U ''#'') \<or> 58 \<notin> set (strip l)"
  by (auto simp: is_rule_line_def Let_def)

lemma foldl_load_filter:
  "foldl load_line rs (filter is_rule_line ls) = foldl load_line rs ls"
  by (induction ls arbitrary: rs) (simp_all add: load_line_skip)

lemma update_not_empty: "AList.update k v al \<noteq> []"
  by (cases al) auto

lemma foldl_load_not_empty: "rs \<noteq> [] \<Longrightarrow> foldl load_line rs ls \<noteq> []"
proof (induction ls arbitrary: rs)
  case Nil
  then show ?case by simp
next
  case (Cons l ls)
  have "load_line rs l \<noteq> []"
    using Cons.prems by (cases "is_rule_line l") (simp_all add: load_line_rule load_line_skip update_not_empty)
  then show ?case
    using Cons.IH by simp
qed

lemma load_lines_filter: "load_lines ls = load_lines (filter is_rule_line ls)"
  by (simp add: load_lines_def foldl_load_filter)

lemma load_lines_empty_iff: "load_lines ls = [] \<longleftrightarrow> filter is_rule_line ls = []"
proof (cases "filter is_rule_line ls")
  case Nil
  have "load_lines ls = load_lines (filter is_rule_line ls)"
    by (rule load_lines_filter)
  also have "\<dots> = []"
    by (simp add: Nil load_lines_def)
  finally show ?thesis
    using Nil by simp
next
  case (Cons l rest)
  then have "l \<in> set (filter is_rule_line ls)"
    by simp
  then have rl: "is_rule_line l"
    by simp
  have ne: "load_line [] l \<noteq> []"
    by (simp add: load_line_rule [OF rl])
  have "load_lines ls = load_lines (filter is_rule_line ls)"
    by (rule load_lines_filter)
  also have "\<dots> = foldl load_line (load_line [] l) rest"
    by (simp add: Cons load_lines_def)
  finally have "load_lines ls \<noteq> []"
    using foldl_load_not_empty [OF ne, of rest] by simp
  with Cons show ?thesis
    by simp
qed

lemma load_lines_skip:
  "\<not> is_rule_line l \<Longrightarrow> load_lines (xs @ l # ys) = load_lines (xs @ ys)"
  by (simp add: load_lines_def load_line_skip)

text \<open>
  Claim C7, amended. A line that is blank, starts with \<open>#\<close> or has no colon is skipped
  and the other lines are loaded as if it were not there; loading is total, and \<open>main\<close>
  stops exactly when every line of the definition is of these three kinds. A line with
  a colon and nothing before it is not skipped: it defines the category with the empty
  name.
\<close>

theorem C7_tolerant_rule_loading:
  "(strip l = [] \<or> startswith (strip l) (U ''#'') \<or> 58 \<notin> set (strip l)
      \<longrightarrow> load_lines (xs @ l # ys) = load_lines (xs @ ys)) \<and>
   load_rules text = load_lines (filter is_rule_line (splitlines text)) \<and>
   main_rules text =
     (if \<forall>l \<in> set (splitlines text). strip l = [] \<or> startswith (strip l) (U ''#'') \<or> 58 \<notin> set (strip l)
      then Inl SystemExit else Inr (load_rules text)) \<and>
   (is_rule_line l \<and> rule_cat l = [] \<longrightarrow> map_of (load_lines (xs @ [l])) [] = Some (rule_terms l))"
proof (intro conjI impI)
  assume "strip l = [] \<or> startswith (strip l) (U ''#'') \<or> 58 \<notin> set (strip l)"
  then have "\<not> is_rule_line l"
    by (simp add: not_rule_line_iff)
  then show "load_lines (xs @ l # ys) = load_lines (xs @ ys)"
    by (rule load_lines_skip)
next
  show "load_rules text = load_lines (filter is_rule_line (splitlines text))"
    by (simp add: load_rules_def load_lines_def foldl_load_filter)
next
  have "(\<forall>l \<in> set (splitlines text). strip l = [] \<or> startswith (strip l) (U ''#'') \<or> 58 \<notin> set (strip l))
      \<longleftrightarrow> filter is_rule_line (splitlines text) = []"
    by (simp add: filter_empty_conv not_rule_line_iff)
  then show "main_rules text =
     (if \<forall>l \<in> set (splitlines text). strip l = [] \<or> startswith (strip l) (U ''#'') \<or> 58 \<notin> set (strip l)
      then Inl SystemExit else Inr (load_rules text))"
    by (simp add: main_rules_def load_rules_def load_lines_empty_iff)
next
  assume a: "is_rule_line l \<and> rule_cat l = []"
  then have "map_of (load_lines (xs @ l # [])) (rule_cat l) = Some (rule_terms l)"
    by (intro load_lines_last_wins) simp_all
  with a show "map_of (load_lines (xs @ [l])) [] = Some (rule_terms l)"
    by simp
qed

lemma splitlines_two:
  "splitlines (U ''A: x'' @ [10] @ U '': foo'') = [U ''A: x'', U '': foo'']"
  by (simp add: splitlines_def U_def is_linebreak_def)

lemma load_rules_empty_cat:
  "load_rules (U ''A: x'' @ [10] @ U '': foo'') = [(U ''A'', [U ''x'']), ([], [U ''foo''])]"
  unfolding load_rules_def splitlines_two
  by (simp add: load_lines_def load_line_def split_first_def str_defs)

lemma load_rules_A: "load_rules (U ''A: x'') = [(U ''A'', [U ''x''])]"
  by (simp add: load_rules_def splitlines_def is_linebreak_def load_lines_def load_line_def split_first_def str_defs)

lemma load_rules_only_empty_cat: "load_rules (U '': foo'') = [([], [U ''foo''])]"
  by (simp add: load_rules_def splitlines_def is_linebreak_def load_lines_def load_line_def split_first_def str_defs)

text \<open>
  Claim C7 as stated also counts a line with an empty category name among the skipped
  ones. The line \<open>: foo\<close> is loaded, as the category with the empty name, and alone it
  is enough for \<open>main\<close> to go on.
\<close>

theorem C7_empty_category_counterexample:
  "load_rules (U ''A: x'' @ [10] @ U '': foo'') = [(U ''A'', [U ''x'']), ([], [U ''foo''])] \<and>
   load_rules (U ''A: x'' @ [10] @ U '': foo'') \<noteq> load_rules (U ''A: x'') \<and>
   main_rules (U '': foo'') = Inr [([], [U ''foo''])]"
proof (intro conjI)
  show "load_rules (U ''A: x'' @ [10] @ U '': foo'') = [(U ''A'', [U ''x'']), ([], [U ''foo''])]"
    by (rule load_rules_empty_cat)
  show "load_rules (U ''A: x'' @ [10] @ U '': foo'') \<noteq> load_rules (U ''A: x'')"
    unfolding load_rules_empty_cat load_rules_A by simp
  show "main_rules (U '': foo'') = Inr [([], [U ''foo''])]"
    by (simp add: main_rules_def load_rules_only_empty_cat)
qed

lemma splitlines_four:
  "splitlines (U ''# rules'' @ [10, 10] @ U ''no separator'' @ [10] @ U ''A: x'') =
     [U ''# rules'', [], U ''no separator'', U ''A: x'']"
  by (simp add: splitlines_def U_def is_linebreak_def)

theorem C7_tolerant_rule_loading_witness:
  "load_rules (U ''# rules'' @ [10, 10] @ U ''no separator'' @ [10] @ U ''A: x'') = [(U ''A'', [U ''x''])] \<and>
   main_rules (U ''# rules'' @ [10, 10] @ U ''no separator'' @ [10] @ U ''A: x'') = Inr [(U ''A'', [U ''x''])] \<and>
   main_rules (U ''# rules'' @ [10, 10] @ U ''no separator'') = Inl SystemExit \<and>
   load_lines ([U ''A: x''] @ U ''no separator'' # []) = load_lines ([U ''A: x''] @ []) \<and>
   map_of (load_lines ([U ''A: x''] @ [U '': foo''])) [] = Some [U ''foo'']"
proof -
  have f: "filter is_rule_line [U ''# rules'', [], U ''no separator'', U ''A: x''] = [U ''A: x'']"
    by (simp add: is_rule_line_def str_defs)
  have l: "load_lines [U ''A: x''] = [(U ''A'', [U ''x''])]"
    by (simp add: load_lines_def load_line_def split_first_def str_defs)
  have s: "splitlines (U ''# rules'' @ [10, 10] @ U ''no separator'') = [U ''# rules'', [], U ''no separator'']"
    by (simp add: splitlines_def U_def is_linebreak_def)
  have n: "\<forall>l \<in> set [U ''# rules'', [], U ''no separator'']. strip l = [] \<or> startswith (strip l) (U ''#'') \<or> 58 \<notin> set (strip l)"
    by (simp add: str_defs)
  have y: "\<not> (\<forall>l \<in> set [U ''# rules'', [], U ''no separator'', U ''A: x'']. strip l = [] \<or> startswith (strip l) (U ''#'') \<or> 58 \<notin> set (strip l))"
    by (simp add: str_defs)
  have e: "is_rule_line (U '': foo'') \<and> rule_cat (U '': foo'') = []" "rule_terms (U '': foo'') = [U ''foo'']"
    by (simp_all add: is_rule_line_def rule_cat_def rule_terms_def split_first_def str_defs)
  have k: "58 \<notin> set (strip (U ''no separator''))"
    by (simp add: str_defs)
  note c1 = C7_tolerant_rule_loading [of "U ''no separator''" "[U ''A: x'']" "[]"
      "U ''# rules'' @ [10, 10] @ U ''no separator'' @ [10] @ U ''A: x''"]
  note c2 = C7_tolerant_rule_loading [of "U '': foo''" "[U ''A: x'']" "[]"
      "U ''# rules'' @ [10, 10] @ U ''no separator''"]
  from c1 have lr: "load_rules (U ''# rules'' @ [10, 10] @ U ''no separator'' @ [10] @ U ''A: x'') = [(U ''A'', [U ''x''])]"
    by (simp only: splitlines_four f l)
  from c1 have "main_rules (U ''# rules'' @ [10, 10] @ U ''no separator'' @ [10] @ U ''A: x'') =
      (if \<forall>l \<in> set [U ''# rules'', [], U ''no separator'', U ''A: x'']. strip l = [] \<or> startswith (strip l) (U ''#'') \<or> 58 \<notin> set (strip l)
       then Inl SystemExit else Inr (load_rules (U ''# rules'' @ [10, 10] @ U ''no separator'' @ [10] @ U ''A: x'')))"
    by (simp only: splitlines_four)
  then have m1: "main_rules (U ''# rules'' @ [10, 10] @ U ''no separator'' @ [10] @ U ''A: x'') = Inr [(U ''A'', [U ''x''])]"
    by (simp only: y if_False lr)
  from c2 have "main_rules (U ''# rules'' @ [10, 10] @ U ''no separator'') =
      (if \<forall>l \<in> set [U ''# rules'', [], U ''no separator'']. strip l = [] \<or> startswith (strip l) (U ''#'') \<or> 58 \<notin> set (strip l)
       then Inl SystemExit else Inr (load_rules (U ''# rules'' @ [10, 10] @ U ''no separator'')))"
    by (simp only: s)
  then have m2: "main_rules (U ''# rules'' @ [10, 10] @ U ''no separator'') = Inl SystemExit"
    using n by (simp only: if_P)
  note lr
  moreover note m1
  moreover note m2
  moreover from c1 k have "load_lines ([U ''A: x''] @ U ''no separator'' # []) = load_lines ([U ''A: x''] @ [])"
    by blast
  moreover from c2 e have "map_of (load_lines ([U ''A: x''] @ [U '': foo''])) [] = Some [U ''foo'']"
    by simp
  ultimately show ?thesis
    by blast
qed

section \<open>Idempotence of the normalizer\<close>

lemma space_32: "is_space 32"
  by (simp add: is_space_def)

lemma hyphen_not_space: "\<not> is_space 45"
  by (simp add: is_space_def)

lemma dropWhile_head: "dropWhile P xs = [] \<or> \<not> P (hd (dropWhile P xs))"
  by (induction xs) auto

lemma rstrip_prefix: "rstrip s @ rev (takeWhile is_space (rev s)) = s"
proof -
  have "rev (takeWhile is_space (rev s) @ dropWhile is_space (rev s)) = s"
    by simp
  then show ?thesis
    unfolding rstrip_def rev_append .
qed

lemma dehyphen_head:
  "x = [] \<or> \<not> is_space (hd x) \<Longrightarrow> dehyphen x = [] \<or> \<not> is_space (hd (dehyphen x))"
proof (induction x rule: dehyphen.induct)
  case 1
  then show ?case by simp
next
  case (2 c cs)
  show ?case
  proof (cases "c = 45 \<and> cs \<noteq> [] \<and> is_space (hd cs)")
    case True
    with 2 dropWhile_head [of is_space cs] show ?thesis
      by simp
  next
    case False
    with 2 show ?thesis
      by auto
  qed
qed

lemma nhs_dehyphen: "no_hyphen_space (dehyphen s)"
proof (induction s rule: dehyphen.induct)
  case 1
  then show ?case by simp
next
  case (2 c cs)
  show ?case
  proof (cases "c = 45 \<and> cs \<noteq> [] \<and> is_space (hd cs)")
    case True
    with 2 show ?thesis
      by simp
  next
    case False
    then have "c = 45 \<longrightarrow> cs = [] \<or> \<not> is_space (hd cs)"
      by auto
    then have "c = 45 \<longrightarrow> dehyphen cs = [] \<or> \<not> is_space (hd (dehyphen cs))"
      using dehyphen_head [of cs] by blast
    with 2 False show ?thesis
      by auto
  qed
qed

lemma nhs_fix: "no_hyphen_space s \<Longrightarrow> dehyphen s = s"
  by (induction s) auto

lemma nhs_dropWhile: "no_hyphen_space s \<Longrightarrow> no_hyphen_space (dropWhile P s)"
  by (induction s) auto

lemma nhs_prefix: "no_hyphen_space (xs @ ys) \<Longrightarrow> no_hyphen_space xs"
  by (induction xs) auto

lemma collapse_head:
  "x = [] \<or> \<not> is_space (hd x) \<Longrightarrow> collapse_ws x = [] \<or> \<not> is_space (hd (collapse_ws x))"
  by (cases x) auto

lemma collapse_hd_eq: "x \<noteq> [] \<Longrightarrow> \<not> is_space (hd x) \<Longrightarrow> hd (collapse_ws x) = hd x \<and> collapse_ws x \<noteq> []"
  by (cases x) auto

lemma nhs_collapse: "no_hyphen_space s \<Longrightarrow> no_hyphen_space (collapse_ws s)"
proof (induction s rule: collapse_ws.induct)
  case 1
  then show ?case by simp
next
  case (2 c cs)
  show ?case
  proof (cases "is_space c")
    case True
    from "2.prems" have "no_hyphen_space (dropWhile is_space cs)"
      by (simp add: nhs_dropWhile)
    with 2 True show ?thesis
      by simp
  next
    case False
    from "2.prems" have "c = 45 \<longrightarrow> cs = [] \<or> \<not> is_space (hd cs)"
      by simp
    then have "c = 45 \<longrightarrow> collapse_ws cs = [] \<or> \<not> is_space (hd (collapse_ws cs))"
      using collapse_head [of cs] by blast
    with 2 False show ?thesis
      by simp
  qed
qed

lemma nhs_strip: "no_hyphen_space s \<Longrightarrow> no_hyphen_space (strip s)"
proof -
  assume "no_hyphen_space s"
  then have "no_hyphen_space (lstrip s)"
    by (simp add: lstrip_def nhs_dropWhile)
  then have "no_hyphen_space (rstrip (lstrip s) @ rev (takeWhile is_space (rev (lstrip s))))"
    by (simp only: rstrip_prefix)
  then show ?thesis
    unfolding strip_def by (rule nhs_prefix)
qed

lemma ss_collapse: "single_spaced (collapse_ws s)"
proof (induction s rule: collapse_ws.induct)
  case 1
  then show ?case by simp
next
  case (2 c cs)
  show ?case
  proof (cases "is_space c")
    case True
    have "collapse_ws (dropWhile is_space cs) = [] \<or> \<not> is_space (hd (collapse_ws (dropWhile is_space cs)))"
      using dropWhile_head [of is_space cs] by (intro collapse_head) 
    with 2 True show ?thesis
      by simp
  next
    case False
    with 2 show ?thesis
      by simp
  qed
qed

lemma dropWhile_none: "xs = [] \<or> \<not> P (hd xs) \<Longrightarrow> dropWhile P xs = xs"
  by (cases xs) auto

lemma ss_fix: "single_spaced s \<Longrightarrow> collapse_ws s = s"
  by (induction s) (auto simp: dropWhile_none)

lemma ss_dropWhile: "single_spaced s \<Longrightarrow> single_spaced (dropWhile P s)"
  by (induction s) auto

lemma ss_prefix: "single_spaced (xs @ ys) \<Longrightarrow> single_spaced xs"
  by (induction xs) auto

lemma ss_strip: "single_spaced s \<Longrightarrow> single_spaced (strip s)"
proof -
  assume "single_spaced s"
  then have "single_spaced (lstrip s)"
    by (simp add: lstrip_def ss_dropWhile)
  then have "single_spaced (rstrip (lstrip s) @ rev (takeWhile is_space (rev (lstrip s))))"
    by (simp only: rstrip_prefix)
  then show ?thesis
    unfolding strip_def by (rule ss_prefix)
qed

lemma rstrip_head: "y = [] \<or> \<not> is_space (hd y) \<Longrightarrow> rstrip y = [] \<or> \<not> is_space (hd (rstrip y))"
proof (cases "rstrip y = []")
  case True
  then show ?thesis by simp
next
  case False
  assume a: "y = [] \<or> \<not> is_space (hd y)"
  have "hd (rstrip y @ rev (takeWhile is_space (rev y))) = hd (rstrip y)"
    using False by simp
  then have "hd y = hd (rstrip y)"
    by (simp only: rstrip_prefix)
  moreover from False have "y \<noteq> []"
    by (auto simp: rstrip_def)
  ultimately show ?thesis
    using a by simp
qed

lemma strip_strip: "strip (strip s) = strip s"
proof -
  have "lstrip s = [] \<or> \<not> is_space (hd (lstrip s))"
    unfolding lstrip_def by (rule dropWhile_head)
  then have h: "strip s = [] \<or> \<not> is_space (hd (strip s))"
    unfolding strip_def by (rule rstrip_head)
  then have "lstrip (strip s) = strip s"
    unfolding lstrip_def by (rule dropWhile_none)
  moreover have "rstrip (strip s) = strip s"
    by (simp add: strip_def rstrip_def)
  ultimately show ?thesis
    by (simp add: strip_def [of "strip s"])
qed

lemma set_dehyphen: "set (dehyphen s) \<subseteq> set s"
proof (induction s rule: dehyphen.induct)
  case 1
  then show ?case by simp
next
  case (2 c cs)
  then show ?case
    by (auto dest: set_dropWhileD)
qed

lemma set_collapse: "set (collapse_ws s) \<subseteq> insert 32 (set s)"
proof (induction s rule: collapse_ws.induct)
  case 1
  then show ?case by simp
next
  case (2 c cs)
  then show ?case
    by (auto dest: set_dropWhileD)
qed

lemma set_strip: "set (strip s) \<subseteq> set s"
proof
  fix c
  assume "c \<in> set (strip s)"
  then have "c \<in> set (dropWhile is_space (rev (dropWhile is_space s)))"
    by (simp add: strip_def lstrip_def rstrip_def)
  then have "c \<in> set (rev (dropWhile is_space s))"
    by (rule set_dropWhileD)
  then have "c \<in> set (dropWhile is_space s)"
    by simp
  then show "c \<in> set s"
    by (rule set_dropWhileD)
qed

lemma remove_cp_absent: "a \<notin> set s \<Longrightarrow> remove_cp a s = s"
  by (induction s) (auto simp: remove_cp_def)

lemma replace_cp_absent: "a \<notin> set s \<Longrightarrow> replace_cp a b s = s"
  by (induction s) (auto simp: replace_cp_def)

lemma set_clean_tail:
  "set (clean_tail s) \<subseteq> insert 32 (set s - {65279, 173, 8203, 8204, 8205, 160})"
proof -
  define r where "r = replace_cp 160 32 (remove_cp 8205 (remove_cp 8204 (remove_cp 8203 (remove_cp 173 (remove_cp 65279 s)))))"
  have r: "set r \<subseteq> insert 32 (set s - {65279, 173, 8203, 8204, 8205, 160})"
    by (auto simp: r_def replace_cp_def remove_cp_def)
  have "set (clean_tail s) \<subseteq> insert 32 (set (dehyphen r))"
    unfolding clean_tail_def Let_def r_def [symmetric]
    using set_strip [of "collapse_ws (dehyphen r)"] set_collapse [of "dehyphen r"] by blast
  with set_dehyphen [of r] r show ?thesis
    by blast
qed

lemma clean_tail_shape: "no_hyphen_space (clean_tail s) \<and> single_spaced (clean_tail s)"
  by (simp add: clean_tail_def nhs_strip nhs_collapse nhs_dehyphen ss_strip ss_collapse)

lemma clean_tail_idem: "clean_tail (clean_tail s) = clean_tail s"
proof -
  let ?t = "clean_tail s"
  have a: "65279 \<notin> set ?t" "173 \<notin> set ?t" "8203 \<notin> set ?t" "8204 \<notin> set ?t" "8205 \<notin> set ?t" "160 \<notin> set ?t"
    using set_clean_tail [of s] by auto
  have "clean_tail ?t = strip (collapse_ws (dehyphen ?t))"
    by (simp add: clean_tail_def [of ?t] remove_cp_absent replace_cp_absent a)
  also have "\<dots> = strip ?t"
    using clean_tail_shape [of s] by (simp add: nhs_fix ss_fix)
  also have "\<dots> = ?t"
    by (simp add: clean_tail_def [of s] strip_strip)
  finally show ?thesis .
qed

lemma clean_tail_ascii: "\<forall>c \<in> set s. c < 128 \<Longrightarrow> \<forall>c \<in> set (clean_tail s). c < 128"
  using set_clean_tail [of s] by auto

text \<open>
  Claim C6, amended. The steps of the normalizer after the NFKC composition are
  idempotent on every string, so \<open>clean(clean(t)) = clean(t)\<close> holds whenever \<open>clean(t)\<close>
  is left unchanged by the composition, which is so for every ASCII text.
\<close>

theorem C6_clean_idempotent_after_composition:
  "clean_tail (clean_tail s) = clean_tail s \<and>
   (nfkc L (clean_unicode_common L t) = clean_unicode_common L t \<longrightarrow>
      clean_unicode_common L (clean_unicode_common L t) = clean_unicode_common L t) \<and>
   (ascii_faithful L \<and> (\<forall>c \<in> set t. c < 128) \<longrightarrow>
      clean_unicode_common L (clean_unicode_common L t) = clean_unicode_common L t)"
proof (intro conjI impI)
  show "clean_tail (clean_tail s) = clean_tail s"
    by (rule clean_tail_idem)
next
  assume "nfkc L (clean_unicode_common L t) = clean_unicode_common L t"
  then have "clean_unicode_common L (clean_unicode_common L t) = clean_tail (clean_unicode_common L t)"
    by (simp add: clean_unicode_common_def [of L "clean_unicode_common L t"])
  then show "clean_unicode_common L (clean_unicode_common L t) = clean_unicode_common L t"
    by (simp add: clean_unicode_common_def clean_tail_idem)
next
  assume a: "ascii_faithful L \<and> (\<forall>c \<in> set t. c < 128)"
  then have t: "nfkc L t = t"
    by (simp add: ascii_faithful_def)
  from a have "\<forall>c \<in> set t. c < 128"
    by simp
  then have "\<forall>c \<in> set (clean_tail t). c < 128"
    by (rule clean_tail_ascii)
  with a have "nfkc L (clean_tail t) = clean_tail t"
    by (simp add: ascii_faithful_def)
  then show "clean_unicode_common L (clean_unicode_common L t) = clean_unicode_common L t"
    by (simp add: clean_unicode_common_def t clean_tail_idem)
qed

lemma clean_zwsp: "clean_unicode_common lib0 [101, 8203, 769] = [101, 769]"
  by (simp add: clean_defs str_defs lib0_defs)

lemma clean_composed: "clean_unicode_common lib0 [101, 769] = [233]"
  by (simp add: clean_defs str_defs lib0_defs)

text \<open>
  Claim C6 as stated fails: the composition comes first, so a mark removed after it can
  bring together a letter and a combining accent that a second pass composes. For
  \<open>e\<close>, U+200B (zero-width space), U+0301 (combining acute) the first pass gives
  \<open>e\<close>, U+0301 and the second U+00E9.
\<close>

theorem C6_clean_not_idempotent_counterexample:
  "clean_unicode_common lib0 [101, 8203, 769] = [101, 769] \<and>
   clean_unicode_common lib0 [101, 769] = [233] \<and>
   clean_unicode_common lib0 (clean_unicode_common lib0 [101, 8203, 769]) \<noteq>
     clean_unicode_common lib0 [101, 8203, 769]"
  by (simp add: clean_zwsp clean_composed)

lemma clean_micro:
  "clean_unicode_common lib0 (U ''micro-'' @ [10] @ U ''service  A'') = U ''microservice A''"
  by (simp add: clean_defs str_defs lib0_defs)

theorem C6_clean_idempotent_after_composition_witness:
  "clean_unicode_common lib0 (U ''micro-'' @ [10] @ U ''service  A'') = U ''microservice A'' \<and>
   clean_unicode_common lib0 (clean_unicode_common lib0 (U ''micro-'' @ [10] @ U ''service  A'')) =
     clean_unicode_common lib0 (U ''micro-'' @ [10] @ U ''service  A'')"
proof -
  have asc: "\<forall>c \<in> set (U ''micro-'' @ [10] @ U ''service  A''). c < 128"
    by (simp add: U_def)
  from C6_clean_idempotent_after_composition [of "[]" lib0 "U ''micro-'' @ [10] @ U ''service  A''"]
    lib0_ascii_faithful asc
  have "clean_unicode_common lib0 (clean_unicode_common lib0 (U ''micro-'' @ [10] @ U ''service  A'')) =
     clean_unicode_common lib0 (U ''micro-'' @ [10] @ U ''service  A'')"
    by blast
  with clean_micro show ?thesis
    by (intro conjI)
qed

end
